theory Spec2Isabelle
  imports Main
begin

section \<open>Characters and strings\<close>

text \<open>
  A Python \<open>str\<close> is a sequence of code points. The model covers the code points
  \<open>0..255\<close> (ASCII and Latin-1), one HOL \<^typ>\<open>char\<close> per code point, so that
  \<^const>\<open>length\<close> counts what Python's \<open>len\<close> counts. \<open>isalpha\<close> and \<open>lower_char\<close>
  are \<open>str.isalpha\<close> and \<open>str.lower\<close> on one such code point: the letters are
  \<open>A-Z\<close>, \<open>a-z\<close>, the ordinal indicators \<open>0xAA\<close>, \<open>0xBA\<close>, the micro sign \<open>0xB5\<close> and
  \<open>0xC0-0xFF\<close> without the multiplication and division signs; the upper-case letters
  \<open>A-Z\<close> and \<open>0xC0-0xDE\<close> (without \<open>0xD7\<close>) have their lower-case form 32 places on.
  A string of length one stands for its character wherever the program holds one
  (an entry of the mask, a validated guess, an element of the guessed set).
  On this range \<open>str.lower\<close> works character by character and keeps the length of a
  string. Beyond it, it need not: \<open>U+0130\<close> lowers to the two code points \<open>U+0069\<close>,
  \<open>U+0307\<close>. Construction is therefore modelled over any type of characters as well
  (\<open>HangMan_init_with\<close> below), with the two builtins as parameters.
\<close>

definition isalpha :: "char \<Rightarrow> bool" where
  "isalpha c =
     (let n = (of_char c :: nat)
      in (65 \<le> n \<and> n \<le> 90) \<or> (97 \<le> n \<and> n \<le> 122) \<or> n = 170 \<or> n = 181 \<or> n = 186
         \<or> (192 \<le> n \<and> n \<le> 214) \<or> (216 \<le> n \<and> n \<le> 246) \<or> (248 \<le> n \<and> n \<le> 255))"

definition lower_char :: "char \<Rightarrow> char" where
  "lower_char c =
     (let n = (of_char c :: nat)
      in if (65 \<le> n \<and> n \<le> 90) \<or> (192 \<le> n \<and> n \<le> 214) \<or> (216 \<le> n \<and> n \<le> 222)
         then char_of (n + 32) else c)"

definition lower :: "string \<Rightarrow> string" where
  "lower s = map lower_char s"

text \<open>\<open>str.isalpha\<close>: every character is a letter and there is at least one.\<close>

definition str_isalpha :: "string \<Rightarrow> bool" where
  "str_isalpha s = (s \<noteq> [] \<and> list_all isalpha s)"

definition placeholder :: char where
  "placeholder = CHR ''_''"

section \<open>The stages of the drawing\<close>

text \<open>
  The dictionary \<open>hangman\<close> of \<open>hangman.py\<close>, keys \<open>0..6\<close>, as an association list;
  \<open>len(hangman)\<close> is its length.
\<close>

definition hangman :: "(nat \<times> string \<times> string \<times> string) list" where
  "hangman =
     [(0, (''   '', ''   '', ''   '')),
      (1, ('' o '', ''   '', ''   '')),
      (2, ('' o '', '' | '', ''   '')),
      (3, ('' o '', ''/| '', ''   '')),
      (4, ('' o '', [CHR ''/'', CHR ''|'', CHR 0x5C], ''   '')),
      (5, ('' o '', [CHR ''/'', CHR ''|'', CHR 0x5C], ''/  '')),
      (6, ('' o '', [CHR ''/'', CHR ''|'', CHR 0x5C, CHR '' ''], [CHR ''/'', CHR '' '', CHR 0x5C]))]"

section \<open>Exceptions and results\<close>

datatype error = ValueError string | IndexError | KeyError | UnboundLocalError

datatype 'a outcome = Raised error | Returned 'a

text \<open>The three messages of \<open>validate_input\<close>, in the order of its checks.\<close>

definition InvalidLength :: error where
  "InvalidLength = ValueError (''You must enter exactly one letter.'' @ [CHR 0x0A])"

definition NotALetter :: error where
  "NotALetter = ValueError (''You must enter a letter.'' @ [CHR 0x0A])"

definition AlreadyGuessed :: "char \<Rightarrow> error" where
  "AlreadyGuessed c = ValueError ([CHR 0x22, c, CHR 0x22] @ '' was already guessed.'' @ [CHR 0x0A])"

section \<open>The game state\<close>

text \<open>The attributes of a \<open>HangMan\<close> object, over a type \<open>'c\<close> of characters.\<close>

record 'c HangMan_state =
  answer :: "'c list"
  hint :: "'c list"
  wrong_guesses :: nat
  guessed_letters :: "'c set"
  consecutive_errors :: nat

type_synonym HangMan = "char HangMan_state"

text \<open>
  \<open>HangMan.__init__\<close>. Of the characters it uses nothing but the builtins
  \<open>str.lower\<close> (on the word) and \<open>str.isalpha\<close> (on each character of the result) and
  the literal \<open>"_"\<close>: with these three as parameters, \<open>HangMan_init_with\<close> is
  \<open>__init__\<close> on every string of every type of characters, whatever the lowering does
  to the length of the word. \<open>HangMan_init\<close> is \<open>__init__\<close> on the characters modelled
  here.
\<close>

definition HangMan_init_with ::
  "('c \<Rightarrow> bool) \<Rightarrow> ('c list \<Rightarrow> 'c list) \<Rightarrow> 'c \<Rightarrow> 'c list \<Rightarrow> 'c HangMan_state" where
  "HangMan_init_with char_isalpha str_lower underscore word =
     (let answer = str_lower word
      in \<lparr>answer = answer,
          hint = map (\<lambda>char. if \<not> char_isalpha char then char else underscore) answer,
          wrong_guesses = 0,
          guessed_letters = {},
          consecutive_errors = 0\<rparr>)"

definition HangMan_init :: "string \<Rightarrow> HangMan" where
  "HangMan_init word = HangMan_init_with isalpha lower placeholder word"

text \<open>
  The call \<open>HangMan(word)\<close> of \<open>play_game\<close>: \<open>__init__\<close> takes the word only, checks
  nothing and has no \<open>raise\<close>, so the call returns for every string; again over any
  type of characters, and on the characters modelled here.
\<close>

definition construct_with ::
  "('c \<Rightarrow> bool) \<Rightarrow> ('c list \<Rightarrow> 'c list) \<Rightarrow> 'c \<Rightarrow> 'c list \<Rightarrow> 'c HangMan_state outcome" where
  "construct_with char_isalpha str_lower underscore word =
     Returned (HangMan_init_with char_isalpha str_lower underscore word)"

definition construct :: "string \<Rightarrow> HangMan outcome" where
  "construct word = construct_with isalpha lower placeholder word"

section \<open>Input validation\<close>

text \<open>
  \<open>validate_input\<close> reads the state and changes nothing; it returns the guess, a string
  of length one, as its character.
\<close>

definition validate_input :: "HangMan \<Rightarrow> string \<Rightarrow> char outcome" where
  "validate_input self guess =
     (if length guess \<noteq> 1 then Raised InvalidLength
      else if \<not> str_isalpha guess then Raised NotALetter
      else if hd guess \<in> guessed_letters self then Raised (AlreadyGuessed (hd guess))
      else Returned (hd guess))"

section \<open>Guessing\<close>

text \<open>
  The loop \<open>for i in range(len(self.answer))\<close> of \<open>make_guess\<close>, over the indices still
  to visit. An assignment \<open>self.hint[i] = guess\<close> beyond the end of the mask raises
  \<open>IndexError\<close> and leaves the mask as far as it was written.
\<close>

fun reveal :: "string \<Rightarrow> char \<Rightarrow> nat list \<Rightarrow> string \<Rightarrow> error option \<times> string" where
  "reveal ans guess [] h = (None, h)"
| "reveal ans guess (i # is) h =
     (if ans ! i = guess
      then (if i < length h then reveal ans guess is (h[i := guess]) else (Some IndexError, h))
      else reveal ans guess is h)"

definition make_guess :: "HangMan \<Rightarrow> string \<Rightarrow> unit outcome \<times> HangMan" where
  "make_guess self guess0 =
     (case validate_input self (lower guess0) of
        Raised e \<Rightarrow> (Raised e, self)
      | Returned guess \<Rightarrow>
          let self1 = self\<lparr>guessed_letters := insert guess (guessed_letters self)\<rparr>
          in if guess \<in> set (answer self1)
             then (case reveal (answer self1) guess [0..<length (answer self1)] (hint self1) of
                     (Some e, h) \<Rightarrow> (Raised e, self1\<lparr>hint := h\<rparr>)
                   | (None, h) \<Rightarrow> (Returned (), self1\<lparr>hint := h, consecutive_errors := 0\<rparr>))
             else (Returned (),
                   self1\<lparr>wrong_guesses := wrong_guesses self1 + 1,
                         consecutive_errors := consecutive_errors self1 + 1\<rparr>))"

section \<open>Hints\<close>

text \<open>
  \<open>random.choice(seq)\<close> raises \<open>IndexError\<close> on an empty sequence and returns
  \<open>seq[k]\<close> for a drawn \<open>k < len(seq)\<close> otherwise. The draw is the argument \<open>r\<close>, reduced
  modulo the length, so that every element can be chosen and every \<open>r\<close> is a draw.
\<close>

definition choice :: "'a list \<Rightarrow> nat \<Rightarrow> 'a outcome" where
  "choice seq r = (if seq = [] then Raised IndexError else Returned (seq ! (r mod length seq)))"

definition unrevealed :: "HangMan \<Rightarrow> nat list" where
  "unrevealed self = filter (\<lambda>i. hint self ! i = placeholder) [0..<length (hint self)]"

definition no_hint_needed :: string where
  "no_hint_needed = ''No hint needed, you already know the word.''"

definition hint_message :: "char \<Rightarrow> string" where
  "hint_message c =
     ''Hint: the letter '' @ [CHR 0x27, c, CHR 0x27] @ '' is in the word.'' @ [CHR 0x0A]"

definition give_hint :: "HangMan \<Rightarrow> nat \<Rightarrow> string outcome \<times> HangMan" where
  "give_hint self r =
     (if placeholder \<notin> set (hint self) then (Returned no_hint_needed, self)
      else (case choice (unrevealed self) r of
              Raised e \<Rightarrow> (Raised e, self)
            | Returned index \<Rightarrow>
                if index < length (answer self)
                then (Returned (hint_message (answer self ! index)),
                      self\<lparr>hint := (hint self)[index := answer self ! index],
                           consecutive_errors := 0\<rparr>)
                else (Raised IndexError, self)))"

section \<open>The caller: one click on the Guess button\<close>

text \<open>\<open>display_hangman\<close>: the lookup \<open>hangman[stage]\<close> raises \<open>KeyError\<close> beyond the last stage.\<close>

definition display_hangman :: "nat \<Rightarrow> string list outcome" where
  "display_hangman stage =
     (case map_of hangman stage of
        None \<Rightarrow> Raised KeyError
      | Some (head, body, legs) \<Rightarrow>
          Returned ['' +------+ '', '' |      |'', '' |     '' @ head, '' |     '' @ body,
                    '' |     '' @ legs, '' |     '', ''_|_________''])"

text \<open>
  The engine has no win or loss method and no mistake bound of its own: \<open>play_hangman\<close>
  tests \<open>"_" not in self.game.hint\<close> and
  \<open>self.game.wrong_guesses >= len(hangman) - 1\<close>.
\<close>

definition max_mistakes :: nat where
  "max_mistakes = length hangman - 1"

definition is_won :: "HangMan \<Rightarrow> bool" where
  "is_won g = (placeholder \<notin> set (hint g))"

definition is_lost :: "HangMan \<Rightarrow> bool" where
  "is_lost g = (wrong_guesses g \<ge> length hangman - 1)"

text \<open>
  \<open>play_hangman\<close>, as far as it touches the game: the text of the entry field, the
  player's answer to the hint question and the random draw are arguments; the result is
  the message boxes shown, the exception that leaves the callback (if any), the game
  and whether the Guess button is still enabled. Labels and canvas are written, never
  read, and are left out, except that drawing the stage fails when \<open>display_hangman\<close>
  raises: its error is shown and the loop over the unassigned \<open>lines\<close> then raises.
\<close>

datatype popup = ErrorBox error | WinBox | LoseBox string | HintQuestion | HintBox string

definition play_hangman ::
  "HangMan \<times> bool \<Rightarrow> string \<Rightarrow> bool \<Rightarrow> nat \<Rightarrow> popup list \<times> error option \<times> HangMan \<times> bool" where
  "play_hangman ui guess ask r =
     (let (game, button) = ui
      in case make_guess game guess of
           (Raised (ValueError m), g1) \<Rightarrow> ([ErrorBox (ValueError m)], None, g1, button)
         | (Raised e, g1) \<Rightarrow> ([], Some e, g1, button)
         | (Returned _, g1) \<Rightarrow>
             (case display_hangman (wrong_guesses g1) of
                Raised e \<Rightarrow> ([ErrorBox e], Some UnboundLocalError, g1, button)
              | Returned lines \<Rightarrow>
                  if is_won g1 then ([WinBox], None, g1, False)
                  else if is_lost g1 then ([LoseBox (answer g1)], None, g1, False)
                  else if consecutive_errors g1 = 3
                  then (if ask
                        then (case give_hint g1 r of
                                (Raised e, g2) \<Rightarrow> ([HintQuestion], Some e, g2, button)
                              | (Returned hint_msg, g2) \<Rightarrow>
                                  ([HintQuestion, HintBox hint_msg], None,
                                   g2\<lparr>consecutive_errors := 0\<rparr>, button))
                        else ([HintQuestion], None, g1\<lparr>consecutive_errors := 0\<rparr>, button))
                  else ([], None, g1, button)))"

section \<open>Reachable states and invariants\<close>

text \<open>
  The states a round can be in: after construction, after any call of \<open>make_guess\<close>
  (accepted or rejected) or \<open>give_hint\<close>, and after the caller's own reset of
  \<open>consecutive_errors\<close>.
\<close>

inductive reachable :: "HangMan \<Rightarrow> bool" where
  init: "reachable (HangMan_init word)"
| guess: "reachable g \<Longrightarrow> reachable (snd (make_guess g s))"
| hint: "reachable g \<Longrightarrow> reachable (snd (give_hint g r))"
| reset: "reachable g \<Longrightarrow> reachable (g\<lparr>consecutive_errors := 0\<rparr>)"

text \<open>
  The mask has the secret's length, and each entry is the secret's character or the
  marker over a letter.
\<close>

definition mask_ok :: "HangMan \<Rightarrow> bool" where
  "mask_ok g =
     (length (hint g) = length (answer g) \<and>
      (\<forall>i<length (answer g).
         hint g ! i = answer g ! i \<or> (hint g ! i = placeholder \<and> isalpha (answer g ! i))))"

text \<open>Every guessed character is shown wherever the secret has it.\<close>

definition guessed_revealed :: "HangMan \<Rightarrow> bool" where
  "guessed_revealed g =
     (\<forall>c\<in>guessed_letters g. \<forall>i<length (answer g). answer g ! i = c \<longrightarrow> hint g ! i = c)"

definition lowercased :: "HangMan \<Rightarrow> bool" where
  "lowercased g = (lower (answer g) = answer g)"

section \<open>Characters: facts\<close>

lemma isalpha_lower_char: "isalpha (lower_char c) = isalpha c"
  unfolding isalpha_def lower_char_def Let_def by auto

lemma lower_char_idem: "lower_char (lower_char c) = lower_char c"
  unfolding lower_char_def Let_def by auto

lemma placeholder_not_alpha: "\<not> isalpha placeholder"
  by (simp add: isalpha_def placeholder_def)

lemma length_lower: "length (lower s) = length s"
  by (simp add: lower_def)

lemma lower_idem: "lower (lower s) = lower s"
  by (simp add: lower_def lower_char_idem)

text \<open>Unfolding everything evaluates the program on a concrete input.\<close>

lemmas run =
  HangMan_init_def HangMan_init_with_def lower_def lower_char_def isalpha_def placeholder_def Let_def
  make_guess_def validate_input_def str_isalpha_def give_hint_def choice_def unrevealed_def
  upt_conv_Cons char_of_def bit_0

section \<open>The reveal loop\<close>

text \<open>
  While every index visited lies inside the mask, the loop raises nothing, keeps the
  length, and writes the guess exactly at the visited indices where the secret has it.
\<close>

lemma reveal_in_range:
  "\<forall>i\<in>set is. i < length h \<Longrightarrow>
   fst (reveal ans c is h) = None \<and> length (snd (reveal ans c is h)) = length h \<and>
   (\<forall>j<length h. snd (reveal ans c is h) ! j = (if j \<in> set is \<and> ans ! j = c then c else h ! j))"
proof (induction "is" arbitrary: h)
  case Nil
  then show ?case by simp
next
  case (Cons i "is")
  show ?case
  proof (cases "ans ! i = c")
    case True
    have "\<forall>k\<in>set is. k < length (h[i := c])" using Cons.prems by simp
    from Cons.IH[OF this] True Cons.prems show ?thesis
      by (auto simp: nth_list_update)
  next
    case False
    have "\<forall>k\<in>set is. k < length h" using Cons.prems by simp
    from Cons.IH[OF this] False show ?thesis by auto
  qed
qed

lemma reveal_all:
  assumes "length h = length ans"
  shows "reveal ans c [0..<length ans] h = (None, map (\<lambda>(a, m). if a = c then c else m) (zip ans h))"
proof -
  have r: "\<forall>i\<in>set [0..<length ans]. i < length h" using assms by simp
  note R = reveal_in_range[OF r, of ans c]
  have "snd (reveal ans c [0..<length ans] h) = map (\<lambda>(a, m). if a = c then c else m) (zip ans h)"
    using R assms by (intro nth_equalityI) auto
  with R show ?thesis by (simp add: prod_eq_iff)
qed

section \<open>Validation and guessing: what a call does\<close>

lemma validate_input_single:
  "validate_input g [c] =
     (if \<not> isalpha c then Raised NotALetter
      else if c \<in> guessed_letters g then Raised (AlreadyGuessed c) else Returned c)"
  by (simp add: validate_input_def str_isalpha_def)

lemma validate_input_length: "length s \<noteq> 1 \<Longrightarrow> validate_input g s = Raised InvalidLength"
  by (simp add: validate_input_def)

lemma make_guess_accepted:
  assumes "length (hint g) = length (answer g)" "isalpha c" "lower_char c \<notin> guessed_letters g"
  shows "make_guess g [c] =
    (Returned (),
     if lower_char c \<in> set (answer g)
     then g\<lparr>guessed_letters := insert (lower_char c) (guessed_letters g),
            hint := map (\<lambda>(a, m). if a = lower_char c then lower_char c else m)
                      (zip (answer g) (hint g)),
            consecutive_errors := 0\<rparr>
     else g\<lparr>guessed_letters := insert (lower_char c) (guessed_letters g),
            wrong_guesses := wrong_guesses g + 1,
            consecutive_errors := consecutive_errors g + 1\<rparr>)"
  using assms
  by (simp add: make_guess_def lower_def validate_input_single isalpha_lower_char reveal_all)

lemma reveal_error: "fst (reveal ans c is h) = Some e \<Longrightarrow> e = IndexError"
  by (induction ans c "is" h rule: reveal.induct) (auto split: if_splits)

text \<open>A \<open>ValueError\<close> can only come from the validation, before anything is written.\<close>

lemma make_guess_ValueError_unchanged:
  assumes "fst (make_guess g s) = Raised (ValueError m)"
  shows "snd (make_guess g s) = g"
proof (cases "validate_input g (lower s)")
  case (Raised e)
  then show ?thesis by (simp add: make_guess_def)
next
  case (Returned c)
  show ?thesis
  proof (cases "c \<in> set (answer g)")
    case False
    with Returned assms show ?thesis by (simp add: make_guess_def Let_def)
  next
    case True
    obtain eo h where r: "reveal (answer g) c [0..<length (answer g)] (hint g) = (eo, h)"
      by (cases "reveal (answer g) c [0..<length (answer g)] (hint g)")
    show ?thesis
    proof (cases eo)
      case None
      with Returned True r assms show ?thesis by (simp add: make_guess_def Let_def)
    next
      case (Some e)
      with r have "e = IndexError"
        using reveal_error[of "answer g" c "[0..<length (answer g)]" "hint g" e] by simp
      with Some Returned True r assms show ?thesis by (simp add: make_guess_def Let_def)
    qed
  qed
qed

text \<open>
  C1: in a state whose mask is as long as the secret, a guess of one lower-case letter
  \<open>c\<close> not guessed before is accepted and recorded in the guessed set. If \<open>c\<close> occurs in
  the secret, the mask shows \<open>c\<close> at every position where the secret has it and is
  otherwise as before, the streak is reset and the mistakes stay; if not, the mask stays
  and both counters grow by one.
\<close>

theorem make_guess_valid:
  assumes "length (hint g) = length (answer g)" and "isalpha c" and "lower_char c = c"
    and "c \<notin> guessed_letters g"
  shows "\<exists>g'. make_guess g [c] = (Returned (), g') \<and> answer g' = answer g \<and>
           guessed_letters g' = insert c (guessed_letters g) \<and>
           length (hint g') = length (hint g) \<and>
           (if c \<in> set (answer g)
            then (\<forall>i<length (answer g). hint g' ! i = (if answer g ! i = c then c else hint g ! i)) \<and>
                 consecutive_errors g' = 0 \<and> wrong_guesses g' = wrong_guesses g
            else hint g' = hint g \<and> wrong_guesses g' = wrong_guesses g + 1 \<and>
                 consecutive_errors g' = consecutive_errors g + 1)"
  using assms make_guess_accepted[of g c] by simp

text \<open>
  C1, witnessed on the secret \<open>"moon"\<close> with the guess \<open>"o"\<close> (both occurrences shown) and
  on \<open>"dog"\<close> with the guess \<open>"z"\<close> (a mistake).
\<close>

theorem make_guess_valid_witness:
  "make_guess (HangMan_init ''moon'') ''o'' =
     (Returned (), \<lparr>answer = ''moon'', hint = ''_oo_'', wrong_guesses = 0,
                    guessed_letters = {CHR ''o''}, consecutive_errors = 0\<rparr>) \<and>
   make_guess (HangMan_init ''dog'') ''z'' =
     (Returned (), \<lparr>answer = ''dog'', hint = ''___'', wrong_guesses = 1,
                    guessed_letters = {CHR ''z''}, consecutive_errors = 1\<rparr>)"
  using make_guess_valid[of "HangMan_init ''moon''" "CHR ''o''"]
    make_guess_valid[of "HangMan_init ''dog''" "CHR ''z''"]
  by (simp add: run)

text \<open>
  C2: the checks come in a fixed order, each with its own error. An input whose length
  is not one is rejected for its length, whatever it contains; a single character that
  is not a letter is rejected as such, whatever has been guessed; a single letter whose
  lower-case form has been guessed is rejected as already guessed. Whenever
  \<open>make_guess\<close> raises a \<open>ValueError\<close> the state is the one before the call. The
  three errors are different values.
\<close>

theorem make_guess_rejects:
  "(length s \<noteq> 1 \<longrightarrow> make_guess g s = (Raised InvalidLength, g)) \<and>
   (\<not> isalpha c \<longrightarrow> make_guess g [c] = (Raised NotALetter, g)) \<and>
   (isalpha c \<and> lower_char c \<in> guessed_letters g \<longrightarrow>
      make_guess g [c] = (Raised (AlreadyGuessed (lower_char c)), g)) \<and>
   (fst (make_guess g s) = Raised (ValueError m) \<longrightarrow> snd (make_guess g s) = g) \<and>
   InvalidLength \<noteq> NotALetter \<and> InvalidLength \<noteq> AlreadyGuessed c \<and>
   NotALetter \<noteq> AlreadyGuessed c"
proof -
  have 1: "length s \<noteq> 1 \<longrightarrow> make_guess g s = (Raised InvalidLength, g)"
    by (simp add: make_guess_def validate_input_length length_lower)
  have 2: "\<not> isalpha c \<longrightarrow> make_guess g [c] = (Raised NotALetter, g)"
    by (simp add: make_guess_def lower_def validate_input_single isalpha_lower_char)
  have 3: "isalpha c \<and> lower_char c \<in> guessed_letters g \<longrightarrow>
      make_guess g [c] = (Raised (AlreadyGuessed (lower_char c)), g)"
    by (simp add: make_guess_def lower_def validate_input_single isalpha_lower_char)
  have 4: "fst (make_guess g s) = Raised (ValueError m) \<longrightarrow> snd (make_guess g s) = g"
    using make_guess_ValueError_unchanged by blast
  have 5: "InvalidLength \<noteq> NotALetter" "InvalidLength \<noteq> AlreadyGuessed c"
    "NotALetter \<noteq> AlreadyGuessed c"
    by (simp_all add: InvalidLength_def NotALetter_def AlreadyGuessed_def)
  from 1 2 3 4 5 show ?thesis by blast
qed

text \<open>
  C2, witnessed on the secret \<open>"cat"\<close>: the inputs \<open>"ab"\<close>, \<open>""\<close>, \<open>"3"\<close> and \<open>"_"\<close>, and the
  input \<open>"C"\<close> after \<open>"c"\<close> has been guessed.
\<close>

theorem make_guess_rejects_witness:
  "make_guess (HangMan_init ''cat'') ''ab'' = (Raised InvalidLength, HangMan_init ''cat'') \<and>
   make_guess (HangMan_init ''cat'') '''' = (Raised InvalidLength, HangMan_init ''cat'') \<and>
   make_guess (HangMan_init ''cat'') ''3'' = (Raised NotALetter, HangMan_init ''cat'') \<and>
   make_guess (HangMan_init ''cat'') ''_'' = (Raised NotALetter, HangMan_init ''cat'') \<and>
   make_guess (snd (make_guess (HangMan_init ''cat'') ''c'')) ''C'' =
     (Raised (AlreadyGuessed (CHR ''c'')), snd (make_guess (HangMan_init ''cat'') ''c''))"
  using make_guess_rejects[of "''ab''" "HangMan_init ''cat''" "CHR ''3''"]
    make_guess_rejects[of "''''" "HangMan_init ''cat''" "CHR ''_''"]
    make_guess_rejects[of "''C''" "snd (make_guess (HangMan_init ''cat'') ''c'')" "CHR ''C''"]
  by (simp add: run)

section \<open>Hints: what a call does\<close>

lemma set_unrevealed:
  "set (unrevealed g) = {i. i < length (hint g) \<and> hint g ! i = placeholder}"
  by (auto simp: unrevealed_def)

lemma unrevealed_nonempty: "placeholder \<in> set (hint g) \<Longrightarrow> unrevealed g \<noteq> []"
proof -
  assume "placeholder \<in> set (hint g)"
  then obtain i where "i < length (hint g)" "hint g ! i = placeholder"
    by (auto simp: in_set_conv_nth)
  then have "i \<in> set (unrevealed g)" by (simp add: set_unrevealed)
  then show ?thesis by auto
qed

lemma give_hint_drawn:
  assumes "placeholder \<in> set (hint g)" and "length (hint g) = length (answer g)"
    and "i = unrevealed g ! (r mod length (unrevealed g))"
  shows "i < length (hint g) \<and> hint g ! i = placeholder \<and>
         give_hint g r =
           (Returned (hint_message (answer g ! i)),
            g\<lparr>hint := (hint g)[i := answer g ! i], consecutive_errors := 0\<rparr>)"
proof -
  have ne: "unrevealed g \<noteq> []" using assms(1) by (rule unrevealed_nonempty)
  then have "r mod length (unrevealed g) < length (unrevealed g)" by simp
  then have "i \<in> set (unrevealed g)" using assms(3) by simp
  then have i: "i < length (hint g)" "hint g ! i = placeholder" by (simp_all add: set_unrevealed)
  with assms ne show ?thesis by (simp add: give_hint_def choice_def)
qed

lemma give_hint_reveals:
  assumes "placeholder \<in> set (hint g)" and "length (hint g) = length (answer g)"
  shows "\<exists>i<length (hint g). hint g ! i = placeholder \<and>
           give_hint g r =
             (Returned (hint_message (answer g ! i)),
              g\<lparr>hint := (hint g)[i := answer g ! i], consecutive_errors := 0\<rparr>)"
  using give_hint_drawn[OF assms refl] by blast

lemma give_hint_any_position:
  assumes "i < length (hint g)" and "hint g ! i = placeholder"
    and "length (hint g) = length (answer g)"
  shows "\<exists>r. give_hint g r =
             (Returned (hint_message (answer g ! i)),
              g\<lparr>hint := (hint g)[i := answer g ! i], consecutive_errors := 0\<rparr>)"
proof -
  have "i \<in> set (unrevealed g)" using assms by (simp add: set_unrevealed)
  then obtain k where k: "k < length (unrevealed g)" "unrevealed g ! k = i"
    by (auto simp: in_set_conv_nth)
  have p: "placeholder \<in> set (hint g)" using assms(1,2) by (auto simp: in_set_conv_nth)
  have "i = unrevealed g ! (k mod length (unrevealed g))" using k by simp
  from give_hint_drawn[OF p assms(3) this] show ?thesis by blast
qed

lemma give_hint_no_placeholder:
  "placeholder \<notin> set (hint g) \<Longrightarrow> give_hint g r = (Returned no_hint_needed, g)"
  by (simp add: give_hint_def)

lemma give_hint_wrong_guesses: "wrong_guesses (snd (give_hint g r)) = wrong_guesses g"
  by (simp add: give_hint_def split: outcome.splits)

lemma hint_message_inj: "(hint_message c = hint_message d) = (c = d)"
  by (simp add: hint_message_def)

text \<open>
  C3: \<open>give_hint\<close> leaves the mistakes as they are, so it never increases them. With
  no marker in the mask it answers "no hint needed" and the state is the one before the
  call. With a marker in the mask (and a mask as long as the secret) it takes one
  position that holds the marker, writes the secret's character there and nowhere else,
  and resets the streak; every position that holds the marker is taken by some draw.
\<close>

theorem give_hint_spec:
  "wrong_guesses (snd (give_hint g r)) = wrong_guesses g \<and>
   (placeholder \<notin> set (hint g) \<longrightarrow> give_hint g r = (Returned no_hint_needed, g)) \<and>
   (placeholder \<in> set (hint g) \<and> length (hint g) = length (answer g) \<longrightarrow>
      (\<exists>i<length (hint g). hint g ! i = placeholder \<and>
         give_hint g r =
           (Returned (hint_message (answer g ! i)),
            g\<lparr>hint := (hint g)[i := answer g ! i], consecutive_errors := 0\<rparr>))) \<and>
   (j < length (hint g) \<and> hint g ! j = placeholder \<and> length (hint g) = length (answer g) \<longrightarrow>
      (\<exists>r'. give_hint g r' =
           (Returned (hint_message (answer g ! j)),
            g\<lparr>hint := (hint g)[j := answer g ! j], consecutive_errors := 0\<rparr>)))"
  using give_hint_wrong_guesses give_hint_no_placeholder give_hint_reveals give_hint_any_position
  by blast

text \<open>
  C3, witnessed on the secret \<open>"cat"\<close>: after the guesses \<open>c, x, y, z\<close> the draw 1 shows the
  \<open>t\<close>; with the whole word shown no hint is needed.
\<close>

theorem give_hint_spec_witness:
  "give_hint \<lparr>answer = ''cat'', hint = ''c__'', wrong_guesses = 3, guessed_letters = {CHR ''c'', CHR ''x'', CHR ''y'', CHR ''z''}, consecutive_errors = 3\<rparr> 1 =
     (Returned (hint_message (CHR ''t'')),
      \<lparr>answer = ''cat'', hint = ''c_t'', wrong_guesses = 3, guessed_letters = {CHR ''c'', CHR ''x'', CHR ''y'', CHR ''z''}, consecutive_errors = 0\<rparr>) \<and>
   give_hint \<lparr>answer = ''cat'', hint = ''cat'', wrong_guesses = 1, guessed_letters = {CHR ''c'', CHR ''a'', CHR ''t'', CHR ''z''}, consecutive_errors = 0\<rparr> 5 =
     (Returned no_hint_needed,
      \<lparr>answer = ''cat'', hint = ''cat'', wrong_guesses = 1, guessed_letters = {CHR ''c'', CHR ''a'', CHR ''t'', CHR ''z''}, consecutive_errors = 0\<rparr>)"
  using give_hint_spec[of "\<lparr>answer = ''cat'', hint = ''c__'', wrong_guesses = 3, guessed_letters = {CHR ''c'', CHR ''x'', CHR ''y'', CHR ''z''}, consecutive_errors = 3\<rparr>" 1 2]
    give_hint_spec[of "\<lparr>answer = ''cat'', hint = ''cat'', wrong_guesses = 1, guessed_letters = {CHR ''c'', CHR ''a'', CHR ''t'', CHR ''z''}, consecutive_errors = 0\<rparr>" 5 0]
  by (simp add: run)

text \<open>
  C8, as stated, fails: the value returned is a message with the character only. On the
  secret \<open>"aa"\<close> the draws 0 and 1 write at different positions and return the same value.
\<close>

theorem give_hint_position_counterexample:
  "fst (give_hint (HangMan_init ''aa'') 0) = fst (give_hint (HangMan_init ''aa'') 1) \<and>
   hint (snd (give_hint (HangMan_init ''aa'') 0)) = ''a_'' \<and>
   hint (snd (give_hint (HangMan_init ''aa'') 1)) = ''_a''"
  by (simp add: run)

text \<open>
  C8, amended: with a marker in the mask, \<open>give_hint\<close> returns the message that names the
  character written into the mask, from which the character can be read back; the
  position is not part of the value returned.
\<close>

theorem give_hint_returns_character:
  "(placeholder \<in> set (hint g) \<and> length (hint g) = length (answer g) \<longrightarrow>
      (\<exists>i<length (hint g). hint g ! i = placeholder \<and>
         fst (give_hint g r) = Returned (hint_message (answer g ! i)) \<and>
         hint (snd (give_hint g r)) = (hint g)[i := answer g ! i])) \<and>
   (hint_message c = hint_message d) = (c = d)"
proof -
  have "\<exists>i<length (hint g). hint g ! i = placeholder \<and>
         fst (give_hint g r) = Returned (hint_message (answer g ! i)) \<and>
         hint (snd (give_hint g r)) = (hint g)[i := answer g ! i]"
    if "placeholder \<in> set (hint g)" "length (hint g) = length (answer g)"
  proof -
    from give_hint_reveals[OF that, of r] obtain i where
      "i < length (hint g)" "hint g ! i = placeholder"
      "give_hint g r = (Returned (hint_message (answer g ! i)),
              g\<lparr>hint := (hint g)[i := answer g ! i], consecutive_errors := 0\<rparr>)"
      by blast
    then show ?thesis by (intro exI[of _ i]) simp
  qed
  then show ?thesis by (simp add: hint_message_inj)
qed

text \<open>C8 amended, witnessed on the secret \<open>"aa"\<close> with the draw 1.\<close>

theorem give_hint_returns_character_witness:
  "fst (give_hint (HangMan_init ''aa'') 1) = Returned (hint_message (CHR ''a'')) \<and>
   hint (snd (give_hint (HangMan_init ''aa'') 1)) = ''_a''"
  using give_hint_returns_character[of "HangMan_init ''aa''" 1]
  by (simp add: run)

section \<open>Construction\<close>

text \<open>
  C6: for every word, over every type of characters and whatever \<open>str.lower\<close> and
  \<open>str.isalpha\<close> compute, construction stores the lower-cased word as the secret; the
  mask has the secret's length, with the marker at every letter of the secret and the
  secret's own character everywhere else; nothing is guessed and both counters are zero.
\<close>

theorem HangMan_init_spec:
  "answer (HangMan_init_with char_isalpha str_lower underscore w) = str_lower w \<and>
   length (hint (HangMan_init_with char_isalpha str_lower underscore w)) =
     length (answer (HangMan_init_with char_isalpha str_lower underscore w)) \<and>
   (\<forall>i<length (answer (HangMan_init_with char_isalpha str_lower underscore w)).
      hint (HangMan_init_with char_isalpha str_lower underscore w) ! i =
        (if char_isalpha (answer (HangMan_init_with char_isalpha str_lower underscore w) ! i)
         then underscore
         else answer (HangMan_init_with char_isalpha str_lower underscore w) ! i)) \<and>
   guessed_letters (HangMan_init_with char_isalpha str_lower underscore w) = {} \<and>
   wrong_guesses (HangMan_init_with char_isalpha str_lower underscore w) = 0 \<and>
   consecutive_errors (HangMan_init_with char_isalpha str_lower underscore w) = 0"
  by (simp add: HangMan_init_with_def Let_def)

text \<open>
  C6, witnessed on the word \<open>"Cat Dog"\<close>, where the space is shown from the start, and,
  with code points as characters, on the word \<open>U+0130\<close> with a lowering that maps it to
  \<open>U+0069\<close>, \<open>U+0307\<close>, of which the first is a letter: the secret and the mask have two
  entries.
\<close>

theorem HangMan_init_spec_witness:
  "HangMan_init ''Cat Dog'' =
     \<lparr>answer = ''cat dog'', hint = ''___ ___'', wrong_guesses = 0, guessed_letters = {},
      consecutive_errors = 0\<rparr> \<and>
   HangMan_init_with (\<lambda>c. c = 0x69)
       (\<lambda>s. concat (map (\<lambda>c. if c = 0x130 then [0x69, 0x307] else [c]) s)) 0x5F [0x130 :: nat] =
     \<lparr>answer = [0x69, 0x307], hint = [0x5F, 0x307], wrong_guesses = 0, guessed_letters = {},
      consecutive_errors = 0\<rparr>"
  using HangMan_init_spec[of isalpha lower placeholder "''Cat Dog''"]
    HangMan_init_spec[of "\<lambda>c. c = 0x69"
      "\<lambda>s. concat (map (\<lambda>c. if c = 0x130 then [0x69, 0x307] else [c]) s)" "0x5F" "[0x130 :: nat]"]
  by (simp add: run)

text \<open>
  C5, as stated, fails: construction has no mistake bound among its parameters and
  rejects nothing. The empty secret is accepted and gives an engine with an empty mask.
\<close>

theorem construct_empty_secret_counterexample:
  "construct [] =
     Returned \<lparr>answer = [], hint = [], wrong_guesses = 0, guessed_letters = {},
               consecutive_errors = 0\<rparr>"
  by (simp add: construct_def construct_with_def HangMan_init_with_def lower_def)

text \<open>
  C5, amended: construction takes the secret only and succeeds for every secret, the
  empty one included, over every type of characters and whatever the builtins compute;
  the mistake bound is not a parameter but the constant \<open>len(hangman) - 1 = 6\<close> of the
  caller's loss test.
\<close>

theorem construct_total:
  "construct_with char_isalpha str_lower underscore word =
     Returned (HangMan_init_with char_isalpha str_lower underscore word) \<and>
   construct w = Returned (HangMan_init w) \<and>
   max_mistakes = 6 \<and> is_lost g = (max_mistakes \<le> wrong_guesses g)"
  by (simp add: construct_def construct_with_def HangMan_init_def max_mistakes_def is_lost_def
      hangman_def)

section \<open>Invariants of a round\<close>

text \<open>What a call can leave behind, in a state whose mask is as long as the secret.\<close>

lemma make_guess_result:
  assumes "length (hint g) = length (answer g)"
  shows "snd (make_guess g s) = g \<or>
    (\<exists>c. isalpha c \<and> lower_char c = c \<and> c \<notin> guessed_letters g \<and>
       snd (make_guess g s) =
         (if c \<in> set (answer g)
          then g\<lparr>guessed_letters := insert c (guessed_letters g),
                 hint := map (\<lambda>(a, m). if a = c then c else m) (zip (answer g) (hint g)),
                 consecutive_errors := 0\<rparr>
          else g\<lparr>guessed_letters := insert c (guessed_letters g),
                 wrong_guesses := wrong_guesses g + 1,
                 consecutive_errors := consecutive_errors g + 1\<rparr>))"
proof (cases "length s = 1")
  case False
  then show ?thesis by (simp add: make_guess_def validate_input_length length_lower)
next
  case True
  then obtain d where s: "s = [d]" by (cases s) auto
  show ?thesis
  proof (cases "isalpha d \<and> lower_char d \<notin> guessed_letters g")
    case False
    then show ?thesis
      by (auto simp: s make_guess_def lower_def validate_input_single isalpha_lower_char)
  next
    case True
    then have "isalpha (lower_char d)" "lower_char (lower_char d) = lower_char d"
      by (simp_all add: isalpha_lower_char lower_char_idem)
    with True make_guess_accepted[OF assms, of d] show ?thesis
      unfolding s by (intro disjI2 exI[of _ "lower_char d"]) simp
  qed
qed

lemma give_hint_result:
  "snd (give_hint g r) = g \<or>
   (\<exists>i<length (answer g).
      snd (give_hint g r) = g\<lparr>hint := (hint g)[i := answer g ! i], consecutive_errors := 0\<rparr>)"
  by (auto simp: give_hint_def choice_def)

lemma guessed_revealed_init: "guessed_revealed (HangMan_init w)"
  by (simp add: guessed_revealed_def HangMan_init_def HangMan_init_with_def Let_def)

lemma guessed_revealed_make_guess:
  assumes len: "length (hint g) = length (answer g)" and inv: "guessed_revealed g"
  shows "guessed_revealed (snd (make_guess g s))"
  using make_guess_result[OF len, of s]
proof (elim disjE exE conjE)
  assume "snd (make_guess g s) = g"
  with inv show ?thesis by simp
next
  fix c
  assume r: "snd (make_guess g s) =
         (if c \<in> set (answer g)
          then g\<lparr>guessed_letters := insert c (guessed_letters g),
                 hint := map (\<lambda>(a, m). if a = c then c else m) (zip (answer g) (hint g)),
                 consecutive_errors := 0\<rparr>
          else g\<lparr>guessed_letters := insert c (guessed_letters g),
                 wrong_guesses := wrong_guesses g + 1,
                 consecutive_errors := consecutive_errors g + 1\<rparr>)"
  show ?thesis
  proof (cases "c \<in> set (answer g)")
    case True
    with r inv len show ?thesis by (auto simp: guessed_revealed_def)
  next
    case False
    with r inv show ?thesis by (auto simp: guessed_revealed_def)
  qed
qed

lemma nth_update_any: "(xs[k := x]) ! i = (if i = k \<and> k < length xs then x else xs ! i)"
  by (cases "k < length xs") (auto simp: nth_list_update list_update_beyond not_less)

lemma guessed_revealed_give_hint:
  assumes "guessed_revealed g"
  shows "guessed_revealed (snd (give_hint g r))"
  using give_hint_result[of g r] assms
  by (auto simp: guessed_revealed_def nth_update_any)

lemma mask_ok_init: "mask_ok (HangMan_init w)"
  by (simp add: mask_ok_def HangMan_init_def HangMan_init_with_def Let_def)

lemma mask_ok_make_guess:
  assumes "mask_ok g"
  shows "mask_ok (snd (make_guess g s))"
proof -
  have len: "length (hint g) = length (answer g)" using assms by (simp add: mask_ok_def)
  have P: "hint g ! i = answer g ! i \<or> (hint g ! i = placeholder \<and> isalpha (answer g ! i))"
    if "i < length (answer g)" for i
    using assms that by (simp add: mask_ok_def)
  from make_guess_result[OF len, of s] show ?thesis
  proof (elim disjE exE conjE)
    assume "snd (make_guess g s) = g"
    with assms show ?thesis by simp
  next
    fix c
    assume r: "snd (make_guess g s) =
         (if c \<in> set (answer g)
          then g\<lparr>guessed_letters := insert c (guessed_letters g),
                 hint := map (\<lambda>(a, m). if a = c then c else m) (zip (answer g) (hint g)),
                 consecutive_errors := 0\<rparr>
          else g\<lparr>guessed_letters := insert c (guessed_letters g),
                 wrong_guesses := wrong_guesses g + 1,
                 consecutive_errors := consecutive_errors g + 1\<rparr>)"
    show ?thesis
    proof (cases "c \<in> set (answer g)")
      case True
      with r len P show ?thesis by (fastforce simp: mask_ok_def)
    next
      case False
      with r len P show ?thesis by (fastforce simp: mask_ok_def)
    qed
  qed
qed

lemma mask_ok_give_hint:
  assumes "mask_ok g"
  shows "mask_ok (snd (give_hint g r))"
proof -
  have len: "length (hint g) = length (answer g)" using assms by (simp add: mask_ok_def)
  have P: "hint g ! i = answer g ! i \<or> (hint g ! i = placeholder \<and> isalpha (answer g ! i))"
    if "i < length (answer g)" for i
    using assms that by (simp add: mask_ok_def)
  from give_hint_result[of g r] show ?thesis
  proof (elim disjE exE conjE)
    assume "snd (give_hint g r) = g"
    with assms show ?thesis by simp
  next
    fix k
    assume "k < length (answer g)"
      and "snd (give_hint g r) = g\<lparr>hint := (hint g)[k := answer g ! k], consecutive_errors := 0\<rparr>"
    with len P show ?thesis by (fastforce simp: mask_ok_def nth_update_any)
  qed
qed

lemma answer_make_guess: "answer (snd (make_guess g s)) = answer g"
  by (simp add: make_guess_def Let_def split: outcome.splits prod.splits option.splits)

lemma answer_give_hint: "answer (snd (give_hint g r)) = answer g"
  by (simp add: give_hint_def split: outcome.splits)

lemma reachable_invariants:
  "reachable g \<Longrightarrow> mask_ok g \<and> guessed_revealed g \<and> lowercased g"
proof (induction rule: reachable.induct)
  case (init word)
  have "lowercased (HangMan_init word)"
    by (simp add: lowercased_def HangMan_init_def HangMan_init_with_def Let_def lower_idem)
  with mask_ok_init guessed_revealed_init show ?case by simp
next
  case (guess g s)
  then have "length (hint g) = length (answer g)" by (simp add: mask_ok_def)
  with guess show ?case
    by (simp add: mask_ok_make_guess guessed_revealed_make_guess lowercased_def answer_make_guess)
next
  case (hint g r)
  then show ?case
    by (simp add: mask_ok_give_hint guessed_revealed_give_hint lowercased_def answer_give_hint)
next
  case (reset g)
  then show ?case by (simp add: mask_ok_def guessed_revealed_def lowercased_def)
qed

text \<open>
  C7: every guessed character is shown in the mask wherever the secret has it. This holds
  after construction, is kept by every call of \<open>make_guess\<close> (accepted or rejected, in
  a state whose mask is as long as the secret) and by every call of \<open>give_hint\<close>, and so
  holds in every reachable state.
\<close>

theorem guessed_revealed_invariant:
  "guessed_revealed (HangMan_init w) \<and>
   (length (hint g) = length (answer g) \<and> guessed_revealed g \<longrightarrow>
      guessed_revealed (snd (make_guess g s))) \<and>
   (guessed_revealed g \<longrightarrow> guessed_revealed (snd (give_hint g r))) \<and>
   (reachable g \<longrightarrow> guessed_revealed g)"
  using guessed_revealed_init guessed_revealed_make_guess guessed_revealed_give_hint
    reachable_invariants by blast

text \<open>
  C7, witnessed on the secret \<open>"moon"\<close>: after construction, after the guess \<open>"o"\<close> and
  after a hint that shows the \<open>n\<close>.
\<close>

theorem guessed_revealed_invariant_witness:
  "guessed_revealed (HangMan_init ''moon'') \<and>
   guessed_revealed (snd (make_guess (HangMan_init ''moon'') ''o'')) \<and>
   guessed_revealed (snd (give_hint (snd (make_guess (HangMan_init ''moon'') ''o'')) 1)) \<and>
   snd (give_hint (snd (make_guess (HangMan_init ''moon'') ''o'')) 1) =
     \<lparr>answer = ''moon'', hint = ''_oon'', wrong_guesses = 0, guessed_letters = {CHR ''o''},
      consecutive_errors = 0\<rparr>"
proof -
  let ?g0 = "HangMan_init ''moon''"
  let ?g1 = "snd (make_guess ?g0 ''o'')"
  have a: "guessed_revealed ?g0"
    using guessed_revealed_invariant[of "''moon''"] by blast
  have len: "length (hint ?g0) = length (answer ?g0)" by (simp add: run)
  have b: "guessed_revealed ?g1"
    using guessed_revealed_invariant[of "''moon''" ?g0 "''o''"] a len by blast
  have c: "guessed_revealed (snd (give_hint ?g1 1))"
    using guessed_revealed_invariant[of "''moon''" ?g1 "''o''" 1] b by blast
  have d: "snd (give_hint ?g1 1) =
     \<lparr>answer = ''moon'', hint = ''_oon'', wrong_guesses = 0, guessed_letters = {CHR ''o''},
      consecutive_errors = 0\<rparr>"
    by (simp add: run)
  from a b c d show ?thesis by blast
qed

section \<open>Winning and losing\<close>

lemma display_hangman_stage:
  "stage \<le> 6 \<Longrightarrow> \<exists>lines. display_hangman stage = Returned lines"
proof -
  assume "stage \<le> 6"
  then have "stage = 0 \<or> stage = 1 \<or> stage = 2 \<or> stage = 3 \<or> stage = 4 \<or> stage = 5 \<or> stage = 6"
    by arith
  then show ?thesis by (auto simp: display_hangman_def hangman_def)
qed

lemma max_mistakes_6: "max_mistakes = 6"
  by (simp add: max_mistakes_def hangman_def)

text \<open>
  C4: the win test holds exactly when no entry of the mask is the marker, the loss test
  exactly when the mistakes have reached the bound \<open>len(hangman) - 1 = 6\<close>. Both only
  read the state: when an accepted guess leads to a win or a loss (the mistakes still
  within the stages of the drawing), \<open>play_hangman\<close> reports it and leaves the game
  exactly as \<open>make_guess\<close> returned it.
\<close>

theorem win_loss_conditions:
  "is_won g = (\<forall>i<length (hint g). hint g ! i \<noteq> placeholder) \<and>
   is_lost g = (max_mistakes \<le> wrong_guesses g) \<and> max_mistakes = 6 \<and>
   (make_guess g s = (Returned (), g1) \<and> wrong_guesses g1 \<le> max_mistakes \<and> is_won g1 \<longrightarrow>
      play_hangman (g, b) s ask r = ([WinBox], None, g1, False)) \<and>
   (make_guess g s = (Returned (), g1) \<and> wrong_guesses g1 \<le> max_mistakes \<and> \<not> is_won g1 \<and>
    is_lost g1 \<longrightarrow>
      play_hangman (g, b) s ask r = ([LoseBox (answer g1)], None, g1, False))"
proof -
  have 1: "is_won g = (\<forall>i<length (hint g). hint g ! i \<noteq> placeholder)"
    by (auto simp: is_won_def in_set_conv_nth)
  have 2: "is_lost g = (max_mistakes \<le> wrong_guesses g)"
    by (simp add: is_lost_def max_mistakes_def)
  have 3: "play_hangman (g, b) s ask r = ([WinBox], None, g1, False)"
    if "make_guess g s = (Returned (), g1)" "wrong_guesses g1 \<le> max_mistakes" "is_won g1"
  proof -
    from that(2) obtain lines where "display_hangman (wrong_guesses g1) = Returned lines"
      using display_hangman_stage by (auto simp: max_mistakes_6)
    with that show ?thesis by (simp add: play_hangman_def)
  qed
  have 4: "play_hangman (g, b) s ask r = ([LoseBox (answer g1)], None, g1, False)"
    if "make_guess g s = (Returned (), g1)" "wrong_guesses g1 \<le> max_mistakes" "\<not> is_won g1"
      "is_lost g1"
  proof -
    from that(2) obtain lines where "display_hangman (wrong_guesses g1) = Returned lines"
      using display_hangman_stage by (auto simp: max_mistakes_6)
    with that show ?thesis by (simp add: play_hangman_def)
  qed
  from 1 2 3 4 max_mistakes_6 show ?thesis by blast
qed

text \<open>
  C4, witnessed on the secret \<open>"cat"\<close> with the last letter guessed (a win) and on
  \<open>"dog"\<close> with the sixth mistake (a loss).
\<close>

theorem win_loss_conditions_witness:
  "play_hangman (\<lparr>answer = ''cat'', hint = ''ca_'', wrong_guesses = 1,
                   guessed_letters = {CHR ''c'', CHR ''z'', CHR ''a''}, consecutive_errors = 0\<rparr>, True)
     ''t'' False 0 =
     ([WinBox], None,
      \<lparr>answer = ''cat'', hint = ''cat'', wrong_guesses = 1,
       guessed_letters = {CHR ''t'', CHR ''c'', CHR ''z'', CHR ''a''}, consecutive_errors = 0\<rparr>, False) \<and>
   play_hangman (\<lparr>answer = ''dog'', hint = ''___'', wrong_guesses = 5,
                   guessed_letters = {CHR ''v'', CHR ''w'', CHR ''x'', CHR ''y'', CHR ''z''},
                   consecutive_errors = 2\<rparr>, True)
     ''q'' False 0 =
     ([LoseBox ''dog''], None,
      \<lparr>answer = ''dog'', hint = ''___'', wrong_guesses = 6,
       guessed_letters = {CHR ''q'', CHR ''v'', CHR ''w'', CHR ''x'', CHR ''y'', CHR ''z''},
       consecutive_errors = 3\<rparr>, False)"
proof -
  let ?g = "\<lparr>answer = ''cat'', hint = ''ca_'', wrong_guesses = 1,
             guessed_letters = {CHR ''c'', CHR ''z'', CHR ''a''}, consecutive_errors = 0\<rparr>"
  let ?g1 = "\<lparr>answer = ''cat'', hint = ''cat'', wrong_guesses = 1,
       guessed_letters = {CHR ''t'', CHR ''c'', CHR ''z'', CHR ''a''}, consecutive_errors = 0\<rparr>"
  let ?h = "\<lparr>answer = ''dog'', hint = ''___'', wrong_guesses = 5,
                   guessed_letters = {CHR ''v'', CHR ''w'', CHR ''x'', CHR ''y'', CHR ''z''},
                   consecutive_errors = 2\<rparr>"
  let ?h1 = "\<lparr>answer = ''dog'', hint = ''___'', wrong_guesses = 6,
       guessed_letters = {CHR ''q'', CHR ''v'', CHR ''w'', CHR ''x'', CHR ''y'', CHR ''z''},
       consecutive_errors = 3\<rparr>"
  have g: "make_guess ?g ''t'' = (Returned (), ?g1)" by (simp add: run)
  have gw: "is_won ?g1" "wrong_guesses ?g1 \<le> max_mistakes"
    by (simp_all add: is_won_def placeholder_def max_mistakes_6)
  have h: "make_guess ?h ''q'' = (Returned (), ?h1)" by (simp add: run)
  have hl: "\<not> is_won ?h1" "is_lost ?h1" "wrong_guesses ?h1 \<le> max_mistakes"
    by (simp_all add: is_won_def is_lost_def placeholder_def max_mistakes_6 hangman_def)
  from win_loss_conditions[of ?g "''t''" ?g1 True False 0] g gw
  have a: "play_hangman (?g, True) ''t'' False 0 = ([WinBox], None, ?g1, False)" by blast
  from win_loss_conditions[of ?h "''q''" ?h1 True False 0] h hl
  have b: "play_hangman (?h, True) ''q'' False 0 = ([LoseBox (answer ?h1)], None, ?h1, False)"
    by blast
  from a b show ?thesis by simp
qed

section \<open>Guessing a hinted letter\<close>

text \<open>
  C10: a hint does not touch the guessed set. In every reachable state, when
  \<open>give_hint\<close> reveals a character \<open>c\<close> (names it in its message, and \<open>c\<close> is not the
  marker itself), \<open>c\<close> is a letter of the secret that is not in the guessed set, and the
  guess \<open>c\<close> that follows is accepted as a correct one: the mistakes stay, the streak is
  zero, \<open>c\<close> joins the guessed set and the mask shows \<open>c\<close> wherever the secret has it.
\<close>

theorem hinted_letter_accepted:
  assumes "reachable g" and "give_hint g r = (Returned (hint_message c), g')"
    and "c \<noteq> placeholder"
  shows "isalpha c \<and> c \<notin> guessed_letters g' \<and> c \<in> set (answer g') \<and>
         (\<exists>g''. make_guess g' [c] = (Returned (), g'') \<and>
                 wrong_guesses g'' = wrong_guesses g \<and> consecutive_errors g'' = 0 \<and>
                 guessed_letters g'' = insert c (guessed_letters g) \<and>
                 (\<forall>i<length (answer g). hint g'' ! i = (if answer g ! i = c then c else hint g' ! i)))"
proof -
  from reachable_invariants[OF assms(1)]
  have ok: "mask_ok g" and gr: "guessed_revealed g" and lc: "lowercased g" by simp_all
  have len: "length (hint g) = length (answer g)" using ok by (simp add: mask_ok_def)
  have p: "placeholder \<in> set (hint g)"
  proof (rule ccontr)
    assume "placeholder \<notin> set (hint g)"
    then have "give_hint g r = (Returned no_hint_needed, g)" by (rule give_hint_no_placeholder)
    with assms(2) show False by (simp add: hint_message_def no_hint_needed_def)
  qed
  from give_hint_reveals[OF p len, of r] obtain i where
    i: "i < length (hint g)" "hint g ! i = placeholder"
    and gh: "give_hint g r = (Returned (hint_message (answer g ! i)),
              g\<lparr>hint := (hint g)[i := answer g ! i], consecutive_errors := 0\<rparr>)"
    by blast
  from gh assms(2) have c: "c = answer g ! i"
    and g': "g' = g\<lparr>hint := (hint g)[i := answer g ! i], consecutive_errors := 0\<rparr>"
    by (simp_all add: hint_message_inj)
  have ia: "i < length (answer g)" using i len by simp
  have neq: "hint g ! i \<noteq> answer g ! i" using i c assms(3) by simp
  have alpha: "isalpha c" using ok ia neq c by (auto simp: mask_ok_def)
  have "lower (answer g) ! i = answer g ! i" using lc by (simp add: lowercased_def)
  then have low: "lower_char c = c" using ia c by (simp add: lower_def)
  have notin: "c \<notin> guessed_letters g"
  proof
    assume "c \<in> guessed_letters g"
    with gr ia c have "hint g ! i = c" by (auto simp: guessed_revealed_def)
    with neq c show False by simp
  qed
  have mem: "c \<in> set (answer g)" using ia c by simp
  have len': "length (hint g') = length (answer g')" using len g' by simp
  from make_guess_accepted[OF len', of c] alpha low notin mem g'
  have mg: "make_guess g' [c] =
      (Returned (),
       g'\<lparr>guessed_letters := insert c (guessed_letters g'),
           hint := map (\<lambda>(a, m). if a = c then c else m) (zip (answer g') (hint g')),
           consecutive_errors := 0\<rparr>)"
    by simp
  show ?thesis
  proof (intro conjI exI)
    show "isalpha c" by (rule alpha)
    show "c \<notin> guessed_letters g'" using notin g' by simp
    show "c \<in> set (answer g')" using mem g' by simp
    show "make_guess g' [c] =
      (Returned (),
       g'\<lparr>guessed_letters := insert c (guessed_letters g'),
           hint := map (\<lambda>(a, m). if a = c then c else m) (zip (answer g') (hint g')),
           consecutive_errors := 0\<rparr>)" by (rule mg)
  qed (use g' len in \<open>auto\<close>)
qed

text \<open>
  C10, witnessed on the secret \<open>"moon"\<close>: the draw 1 shows one \<open>o\<close>, the guess \<open>"o"\<close> is
  then accepted and shows the other.
\<close>

theorem hinted_letter_accepted_witness:
  "give_hint (HangMan_init ''moon'') 1 =
     (Returned (hint_message (CHR ''o'')),
      \<lparr>answer = ''moon'', hint = ''_o__'', wrong_guesses = 0, guessed_letters = {},
       consecutive_errors = 0\<rparr>) \<and>
   make_guess \<lparr>answer = ''moon'', hint = ''_o__'', wrong_guesses = 0, guessed_letters = {},
               consecutive_errors = 0\<rparr> ''o'' =
     (Returned (),
      \<lparr>answer = ''moon'', hint = ''_oo_'', wrong_guesses = 0, guessed_letters = {CHR ''o''},
       consecutive_errors = 0\<rparr>)"
proof -
  let ?g' = "\<lparr>answer = ''moon'', hint = ''_o__'', wrong_guesses = 0, guessed_letters = {},
              consecutive_errors = 0\<rparr>"
  have r: "reachable (HangMan_init ''moon'')" by (rule reachable.init)
  have h: "give_hint (HangMan_init ''moon'') 1 = (Returned (hint_message (CHR ''o'')), ?g')"
    by (simp add: run)
  have n: "CHR ''o'' \<noteq> placeholder" by (simp add: placeholder_def)
  from hinted_letter_accepted[OF r h n] obtain g'' where
    "make_guess ?g' ''o'' = (Returned (), g'')" by blast
  moreover have "snd (make_guess ?g' ''o'') =
      \<lparr>answer = ''moon'', hint = ''_oo_'', wrong_guesses = 0, guessed_letters = {CHR ''o''},
       consecutive_errors = 0\<rparr>"
    by (simp add: run)
  ultimately show ?thesis using h by simp
qed

section \<open>A secret with a literal underscore\<close>

text \<open>
  C9 at the secret \<open>"_"\<close>, which is not empty and has no letter: the mask equals the
  secret, yet the win test fails, and \<open>give_hint\<close> does not answer "no hint needed" but
  announces the letter \<open>'_'\<close>, whatever the draw; the mask stays as it was, so the round
  can never be won.
\<close>

theorem underscore_secret_not_won:
  "\<not> isalpha (CHR ''_'') \<and>
   HangMan_init ''_'' =
     \<lparr>answer = ''_'', hint = ''_'', wrong_guesses = 0, guessed_letters = {},
      consecutive_errors = 0\<rparr> \<and>
   is_won (HangMan_init ''_'') = False \<and>
   give_hint (HangMan_init ''_'') r = (Returned (hint_message (CHR ''_'')), HangMan_init ''_'')"
  by (simp add: run is_won_def)

lemma lower_char_placeholder: "(lower_char c = placeholder) = (c = placeholder)"
proof
  assume "lower_char c = placeholder"
  then have "of_char (lower_char c) = (95::nat)" by (simp add: placeholder_def)
  then have "of_char c = (95::nat)"
    by (auto simp: lower_char_def Let_def split: if_splits)
  then have "c = char_of (95::nat)" by (metis char_of_char)
  then show "c = placeholder" by (simp add: placeholder_def char_of_def bit_0)
next
  assume "c = placeholder"
  then show "lower_char c = placeholder" by (simp add: lower_char_def placeholder_def)
qed

text \<open>
  Without an underscore in the word, a word without letters is won from the start and
  needs no hint.
\<close>

lemma no_letters_won:
  assumes "\<forall>c\<in>set w. \<not> isalpha c" and "placeholder \<notin> set w"
  shows "hint (HangMan_init w) = lower w \<and> is_won (HangMan_init w) \<and>
         give_hint (HangMan_init w) r = (Returned no_hint_needed, HangMan_init w)"
proof -
  have h: "hint (HangMan_init w) = lower w"
    using assms(1) by (simp add: HangMan_init_def HangMan_init_with_def Let_def lower_def isalpha_lower_char)
  have "placeholder \<notin> set (lower w)"
  proof
    assume "placeholder \<in> set (lower w)"
    then obtain x where x: "x \<in> set w" "lower_char x = placeholder"
      by (auto simp: lower_def)
    then have "x = placeholder" by (simp add: lower_char_placeholder)
    with x assms(2) show False by simp
  qed
  with h have "placeholder \<notin> set (hint (HangMan_init w))" by simp
  with h show ?thesis by (simp add: is_won_def give_hint_no_placeholder)
qed

text \<open>
  On the secret \<open>"a_"\<close> the hint drawn at position 1 announces the character \<open>'_'\<close> and
  writes the marker over itself; the input \<open>"_"\<close> is then rejected as not a letter.
\<close>

lemma hinted_underscore_rejected:
  "give_hint (HangMan_init ''a_'') 1 = (Returned (hint_message (CHR ''_'')), HangMan_init ''a_'') \<and>
   make_guess (snd (give_hint (HangMan_init ''a_'') 1)) ''_'' =
     (Raised NotALetter, HangMan_init ''a_'')"
  by (simp add: run)

end
